theory Spec2Isabelle
  imports Main "HOL-Library.Multiset"
begin

section \<open>Values and errors\<close>

text \<open>
  The JavaScript values the modelled functions receive and return: \<open>undefined\<close>,
  \<open>null\<close> and strings. Every \<open>throw\<close> and every callback error of the source is a
  value of \<open>error\<close>; the constructor records the message the source builds.
\<close>

datatype jsval = Undefined | Null | Str string

datatype error =
    InvalidIncrementLevel string
  | NoCommits
  | InvalidVersion string
  | PatternDoesNotMatch string
  | PackageNameNotFound string
  | ENOENT string
  | BaseDirAbsolute
  | MissingFileOption
  | FileAbsolute
  | MissingRegexOption
  | SemverTypeError string
  | RegExpSyntaxError string
  | JSONError string

text \<open>JavaScript truthiness on these values: \<open>!v\<close> holds for undefined, null and the empty string.\<close>

fun truthy :: "jsval \<Rightarrow> bool" where
  "truthy Undefined = False"
| "truthy Null = False"
| "truthy (Str s) = (s \<noteq> [])"

section \<open>lib/semver.js: increment levels\<close>

definition VALID_INCREMENT_LEVELS :: "jsval list" where
  "VALID_INCREMENT_LEVELS = [Str ''patch'', Str ''minor'', Str ''major'']"

text \<open>\<open>_.includes\<close>, \<open>_.indexOf\<close> (\<open>-1\<close> when absent) and \<open>_.nth\<close> (a negative index
  counts from the end, out of range is \<open>undefined\<close>) of lodash.\<close>

definition includes_js :: "'a list \<Rightarrow> 'a \<Rightarrow> bool" where
  "includes_js xs x = (x \<in> set xs)"

fun indexOf :: "'a list \<Rightarrow> 'a \<Rightarrow> int" where
  "indexOf [] x = -1"
| "indexOf (y # ys) x =
     (if x = y then 0 else (let i = indexOf ys x in if i < 0 then -1 else i + 1))"

definition nth_js :: "jsval list \<Rightarrow> int \<Rightarrow> jsval" where
  "nth_js xs n =
     (let m = (if n < 0 then n + int (length xs) else n)
      in if 0 \<le> m \<and> m < int (length xs) then xs ! nat m else Undefined)"

definition isValidIncrementLevel :: "jsval \<Rightarrow> bool" where
  "isValidIncrementLevel level = includes_js VALID_INCREMENT_LEVELS level"

text \<open>The text of a value where the source interpolates or concatenates it (\<open>ToString\<close>).\<close>

fun to_string :: "jsval \<Rightarrow> string" where
  "to_string (Str s) = s"
| "to_string Null = ''null''"
| "to_string Undefined = ''undefined''"

definition check_level :: "jsval \<Rightarrow> error option" where
  "check_level level =
     (if level \<noteq> Undefined \<and> level \<noteq> Null \<and> \<not> isValidIncrementLevel level
      then Some (InvalidIncrementLevel (to_string level)) else None)"

definition getHigherIncrementLevel :: "jsval \<Rightarrow> jsval \<Rightarrow> error + jsval" where
  "getHigherIncrementLevel firstLevel secondLevel =
     (case check_level firstLevel of
        Some e \<Rightarrow> Inl e
      | None \<Rightarrow>
         (case check_level secondLevel of
            Some e \<Rightarrow> Inl e
          | None \<Rightarrow>
             if \<not> truthy firstLevel \<and> \<not> truthy secondLevel then Inr Null
             else
               (let firstLevelIndex = indexOf VALID_INCREMENT_LEVELS firstLevel;
                    secondLevelIndex = indexOf VALID_INCREMENT_LEVELS secondLevel
                in Inr (nth_js VALID_INCREMENT_LEVELS (max firstLevelIndex secondLevelIndex)))))"

text \<open>\<open>_.reduce(commits, f, null)\<close>: a left fold; a throw of the callback ends it.\<close>

fun reduce_levels :: "('c \<Rightarrow> jsval) \<Rightarrow> 'c list \<Rightarrow> jsval \<Rightarrow> error + jsval" where
  "reduce_levels getIncrementLevelFromCommit [] currentLevel = Inr currentLevel"
| "reduce_levels getIncrementLevelFromCommit (commit # commits) currentLevel =
     (case getHigherIncrementLevel (getIncrementLevelFromCommit commit) currentLevel of
        Inl e \<Rightarrow> Inl e
      | Inr l \<Rightarrow> reduce_levels getIncrementLevelFromCommit commits l)"

definition calculateNextIncrementLevel :: "'c list \<Rightarrow> ('c \<Rightarrow> jsval) \<Rightarrow> error + jsval" where
  "calculateNextIncrementLevel commits getIncrementLevelFromCommit =
     (if commits = [] then Inl NoCommits
      else reduce_levels getIncrementLevelFromCommit commits Null)"

text \<open>The classifications the claim ranges over, and "none".\<close>

definition classifications :: "jsval set" where
  "classifications = {Str ''patch'', Str ''minor'', Str ''major'', Null, Undefined}"

definition is_none :: "jsval \<Rightarrow> bool" where
  "is_none v = (v = Null \<or> v = Undefined)"

definition position :: "jsval \<Rightarrow> int" where
  "position v = indexOf VALID_INCREMENT_LEVELS v"

section \<open>presets: addEntryToChangelog.prepend\<close>

text \<open>
  Line handling of lodash as the preset uses it. \<open>_.split(s, '\n')\<close> always returns at
  least one line (the empty text is one empty line); \<open>_.join\<close> puts the separator between
  the elements; \<open>_.isEmpty\<close> on a line is emptiness of the string.
\<close>

fun split_js :: "char \<Rightarrow> string \<Rightarrow> string list" where
  "split_js sep [] = [[]]"
| "split_js sep (c # cs) =
     (if c = sep then [] # split_js sep cs
      else (case split_js sep cs of [] \<Rightarrow> [[c]] | l # ls \<Rightarrow> (c # l) # ls))"

fun join_js :: "string \<Rightarrow> string list \<Rightarrow> string" where
  "join_js sep [] = []"
| "join_js sep [l] = l"
| "join_js sep (l # m # ls) = l @ sep @ join_js sep (m # ls)"

definition isEmpty :: "string \<Rightarrow> bool" where
  "isEmpty l = (l = [])"

definition dropRightWhile :: "('a \<Rightarrow> bool) \<Rightarrow> 'a list \<Rightarrow> 'a list" where
  "dropRightWhile p xs = rev (dropWhile p (rev xs))"

text \<open>
  \<open>_.slice(array, start, end)\<close> with integer arguments, \<open>end\<close> optional: an empty array
  gives \<open>[]\<close>; a negative \<open>start\<close> counts from the end (and is 0 when it reaches before
  the array); \<open>end\<close> is capped at the length, and a negative \<open>end\<close> has the length added;
  the result is empty when \<open>start > end\<close>.
\<close>

definition slice_js :: "'a list \<Rightarrow> int \<Rightarrow> int option \<Rightarrow> 'a list" where
  "slice_js array start0 end0 =
     (let len = int (length array) in
      if len = 0 then []
      else
        (let start = (if start0 < 0 then (if - start0 > len then 0 else len + start0) else start0);
             end1 = (case end0 of None \<Rightarrow> len | Some e \<Rightarrow> if e > len then len else e);
             end2 = (if end1 < 0 then end1 + len else end1);
             n = (if start > end2 then 0 else end2 - start)
         in take (nat n) (drop (nat start) array)))"

text \<open>The callback of the \<open>_.reduce\<close>: \<open>accumulator\<close> and the next array of lines.\<close>

definition combine :: "string list \<Rightarrow> string list \<Rightarrow> string list" where
  "combine accumulator array =
     (let head = dropRightWhile isEmpty accumulator;
          body = dropWhile isEmpty array
      in if head = [] then body else head @ [''''] @ body)"

definition merge_lines :: "string \<Rightarrow> string \<Rightarrow> int \<Rightarrow> string list" where
  "merge_lines contents entry fromLine =
     (let changelogLines = split_js CHR ''\<newline>'' contents
      in foldl combine []
           [slice_js changelogLines 0 (Some fromLine),
            split_js CHR ''\<newline>'' entry,
            slice_js changelogLines fromLine None])"

definition mergeEntry :: "string \<Rightarrow> string \<Rightarrow> int \<Rightarrow> string" where
  "mergeEntry contents entry fromLine = join_js ''\<newline>'' (merge_lines contents entry fromLine)"

text \<open>
  The file system is a map from paths to contents. \<open>touch\<close> creates a missing file empty;
  the preset then reads the file, merges and writes it back. \<open>fromLine\<close> defaults to 0.
\<close>

type_synonym filesystem = "string \<rightharpoonup> string"

definition touch :: "filesystem \<Rightarrow> string \<Rightarrow> filesystem" where
  "touch fs file = (case fs file of None \<Rightarrow> fs(file \<mapsto> []) | Some _ \<Rightarrow> fs)"

definition prepend :: "int option \<Rightarrow> filesystem \<Rightarrow> string \<Rightarrow> string \<Rightarrow> error option \<times> filesystem" where
  "prepend fromLineOption fs file entry =
     (let fromLine = (case fromLineOption of None \<Rightarrow> 0 | Some n \<Rightarrow> n);
          fs1 = touch fs file
      in case fs1 file of
           None \<Rightarrow> (Some (ENOENT file), fs1)
         | Some contents \<Rightarrow> (None, fs1(file \<mapsto> mergeEntry contents entry fromLine)))"


text \<open>Blank lines at the edges of a sequence of lines, and a segment trimmed on both sides.\<close>

definition starts_blank :: "string list \<Rightarrow> bool" where
  "starts_blank ls = (case ls of [] \<Rightarrow> False | l # _ \<Rightarrow> l = [])"

definition ends_blank :: "string list \<Rightarrow> bool" where
  "ends_blank ls = starts_blank (rev ls)"

definition trim_lines :: "string list \<Rightarrow> string list" where
  "trim_lines ls = dropRightWhile isEmpty (dropWhile isEmpty ls)"

text \<open>A document with no blank line at either edge.\<close>

definition blank_free_edges :: "string list \<Rightarrow> bool" where
  "blank_free_edges ls = (\<not> starts_blank ls \<and> \<not> ends_blank ls)"

section \<open>lib/semver.js: comparing versions\<close>

















subsection \<open>An instance of the parameters\<close>


definition is_digit :: "char \<Rightarrow> bool" where
  "is_digit c = (48 \<le> (of_char c :: nat) \<and> (of_char c :: nat) \<le> 57)"


datatype pre_id = Numeric nat | Name string


record version =
  major :: nat
  minor :: nat
  patch :: nat
  prerelease :: "pre_id list"







section \<open>Regular expressions and \<open>String.prototype.replace\<close>\<close>

text \<open>
  The presets rewrite files with JavaScript regular expressions. The engine is the
  language's, not the repository's; the model covers the pattern syntax the presets use:
  literal characters, \<open>.\<close>, character classes (\<open>[^[]\<close>, \<open>\s\<close>, \<open>\d\<close>), \<open>^\<close> and \<open>$\<close>,
  sequence, alternation, greedy and lazy \<open>*\<close> and \<open>+\<close>, capturing groups and back
  references, with the flags \<open>g\<close> and \<open>m\<close>. A pattern is its syntax tree; capturing groups
  are numbered by their opening parenthesis, left to right, as in the pattern's source
  text, so concatenating two sources is \<open>Seq\<close> and wrapping one in parentheses is \<open>Group\<close>.
  Strings are sequences of 8-bit characters.
\<close>

datatype regex =
    Eps
  | Chr char
  | Dot
  | Cls bool "char list"
  | Bol
  | Eol
  | Seq regex regex
  | Alt regex regex
  | Star bool regex
  | Plus bool regex
  | Group regex
  | Backref nat

datatype flag = Global | Multiline

record regexp =
  source :: regex
  flags :: "flag list"

text \<open>The number of capturing groups of a pattern.\<close>

fun groups :: "regex \<Rightarrow> nat" where
  "groups (Seq r1 r2) = groups r1 + groups r2"
| "groups (Alt r1 r2) = groups r1 + groups r2"
| "groups (Star greedy r) = groups r"
| "groups (Plus greedy r) = groups r"
| "groups (Group r) = Suc (groups r)"
| "groups _ = 0"

text \<open>
  A matcher state is the pos reached and the captures so far: capture \<open>n\<close> is at
  index \<open>n - 1\<close>, as the pair of its start and end positions, or \<open>None\<close> (undefined).
\<close>

type_synonym captures = "(nat \<times> nat) option list"
type_synonym mstate = "nat \<times> captures"

definition line_terminator :: "char \<Rightarrow> bool" where
  "line_terminator c = (c = CHR 0x0A \<or> c = CHR 0x0D)"

definition substring :: "string \<Rightarrow> nat \<Rightarrow> nat \<Rightarrow> string" where
  "substring s from until = take (until - from) (drop from s)"

text \<open>Entering an iteration of a quantifier resets the captures of the groups inside it.\<close>

definition clear_captures :: "nat \<Rightarrow> nat \<Rightarrow> mstate \<Rightarrow> mstate" where
  "clear_captures b n st =
     (fst st, map (\<lambda>(k, c). if b \<le> k \<and> k < b + n then None else c) (enumerate 0 (snd st)))"

text \<open>
  The loop of \<open>*\<close> after the state \<open>st\<close>: every iteration that consumes input, in the
  order the body finds them, each followed by the loop again; leaving the loop at \<open>st\<close> is
  tried last when greedy and first when lazy. The language rejects an iteration that ends
  where it started; the body never moves backwards nor beyond the end of the input
  (\<open>len\<close>), so an accepted iteration ends strictly later, at \<open>len\<close> at most.
\<close>

function rep_loop :: "bool \<Rightarrow> (mstate \<Rightarrow> mstate list) \<Rightarrow> nat \<Rightarrow> mstate \<Rightarrow> mstate list" where
  "rep_loop greedy step len st =
     (let further = concat (map (rep_loop greedy step len)
                      (filter (\<lambda>st'. fst st < fst st' \<and> fst st' \<le> len) (step st)))
      in if greedy then further @ [st] else st # further)"
  by pat_completeness auto
termination
  by (relation "measure (\<lambda>(greedy, step, len, st). len - fst st)") auto

declare rep_loop.simps [simp del]

text \<open>
  The backtracking matcher: all ways the pattern \<open>r\<close> matches \<open>s\<close> from a state, in the
  order the engine tries them. \<open>ml\<close> is the flag \<open>m\<close>; \<open>b\<close> is the number of capturing
  groups opened before \<open>r\<close>. A back reference to an undefined capture matches the empty
  string; one beyond the groups of the pattern is outside the model and matches nothing.
\<close>

fun matches :: "bool \<Rightarrow> string \<Rightarrow> regex \<Rightarrow> nat \<Rightarrow> mstate \<Rightarrow> mstate list" where
  "matches ml s Eps b st = [st]"
| "matches ml s (Chr c) b (i, caps) =
     (if i < length s \<and> s ! i = c then [(Suc i, caps)] else [])"
| "matches ml s Dot b (i, caps) =
     (if i < length s \<and> \<not> line_terminator (s ! i) then [(Suc i, caps)] else [])"
| "matches ml s (Cls negated cs) b (i, caps) =
     (if i < length s \<and> ((s ! i \<in> set cs) \<noteq> negated) then [(Suc i, caps)] else [])"
| "matches ml s Bol b (i, caps) =
     (if i = 0 \<or> (ml \<and> i \<le> length s \<and> line_terminator (s ! (i - 1))) then [(i, caps)] else [])"
| "matches ml s Eol b (i, caps) =
     (if i = length s \<or> (ml \<and> i < length s \<and> line_terminator (s ! i)) then [(i, caps)] else [])"
| "matches ml s (Seq r1 r2) b st =
     concat (map (matches ml s r2 (b + groups r1)) (matches ml s r1 b st))"
| "matches ml s (Alt r1 r2) b st =
     matches ml s r1 b st @ matches ml s r2 (b + groups r1) st"
| "matches ml s (Star greedy r) b st =
     rep_loop greedy (\<lambda>x. matches ml s r b (clear_captures b (groups r) x)) (length s) st"
| "matches ml s (Plus greedy r) b st =
     concat (map (rep_loop greedy (\<lambda>x. matches ml s r b (clear_captures b (groups r) x)) (length s))
                 (matches ml s r b (clear_captures b (groups r) st)))"
| "matches ml s (Group r) b (i, caps) =
     map (\<lambda>(j, caps'). (j, caps'[b := Some (i, j)])) (matches ml s r (Suc b) (i, caps))"
| "matches ml s (Backref n) b (i, caps) =
     (if n = 0 \<or> length caps < n then []
      else (case caps ! (n - 1) of
              None \<Rightarrow> [(i, caps)]
            | Some (from, until) \<Rightarrow>
                (let t = substring s from until
                 in if take (length t) (drop i s) = t then [(i + length t, caps)] else [])))"

text \<open>
  A match is the index where it starts, the index where it ends and its captures.
  \<open>match_at\<close> is the first way the pattern matches at an index; \<open>regexp_exec\<close> is the
  search of \<open>RegExp.prototype.exec\<close> from \<open>lastIndex\<close>: the first index, up to the length
  of the string, where the pattern matches.
\<close>

type_synonym rmatch = "nat \<times> nat \<times> captures"

definition match_at :: "regexp \<Rightarrow> string \<Rightarrow> nat \<Rightarrow> rmatch option" where
  "match_at p s i =
     (case matches (Multiline \<in> set (flags p)) s (source p) 0 (i, replicate (groups (source p)) None) of
        [] \<Rightarrow> None
      | (j, caps) # _ \<Rightarrow> Some (i, j, caps))"

fun exec_loop :: "regexp \<Rightarrow> string \<Rightarrow> nat \<Rightarrow> nat \<Rightarrow> rmatch option" where
  "exec_loop p s 0 i = None"
| "exec_loop p s (Suc n) i =
     (case match_at p s i of Some m \<Rightarrow> Some m | None \<Rightarrow> exec_loop p s n (Suc i))"

definition regexp_exec :: "regexp \<Rightarrow> string \<Rightarrow> nat \<Rightarrow> rmatch option" where
  "regexp_exec p s lastIndex = exec_loop p s (Suc (length s) - lastIndex) lastIndex"



text \<open>
  The replacement text for one match (\<open>GetSubstitution\<close> of the language, without named
  groups): \<open>$$\<close> is a dollar sign, \<open>$&\<close> the matched text, \<open>$`\<close> and \<open>$'\<close> the text before
  and after the match; \<open>$n\<close> and \<open>$nn\<close> are captures, an undefined capture being empty; two
  digits that exceed the number of captures are read as one digit followed by a literal
  digit; a reference to no capture stays as it is written.
\<close>

definition digit_value :: "char \<Rightarrow> nat" where
  "digit_value c = of_char c - 48"

definition capture_text :: "string option list \<Rightarrow> nat \<Rightarrow> string" where
  "capture_text caps n = (case caps ! (n - 1) of None \<Rightarrow> [] | Some t \<Rightarrow> t)"

fun get_substitution :: "string \<Rightarrow> string \<Rightarrow> nat \<Rightarrow> string option list \<Rightarrow> string \<Rightarrow> string" where
  "get_substitution matched str pos caps [] = []"
| "get_substitution matched str pos caps [c] = [c]"
| "get_substitution matched str pos caps (c # d # rest) =
     (if c \<noteq> CHR ''$'' then c # get_substitution matched str pos caps (d # rest)
      else if d = CHR ''$'' then CHR ''$'' # get_substitution matched str pos caps rest
      else if d = CHR ''&'' then matched @ get_substitution matched str pos caps rest
      else if d = CHR 0x60 then take pos str @ get_substitution matched str pos caps rest
      else if d = CHR 0x27 then
        drop (pos + length matched) str @ get_substitution matched str pos caps rest
      else if is_digit d then
        (let one = digit_value d;
             two = (case rest of e # _ \<Rightarrow> if is_digit e then Some (10 * one + digit_value e) else None
                    | [] \<Rightarrow> None)
         in case two of
              Some nn \<Rightarrow>
                if nn \<le> length caps then
                  (if 1 \<le> nn then capture_text caps nn @ get_substitution matched str pos caps (tl rest)
                   else c # d # hd rest # get_substitution matched str pos caps (tl rest))
                else if 1 \<le> one \<and> one \<le> length caps then
                  capture_text caps one @ get_substitution matched str pos caps rest
                else c # d # get_substitution matched str pos caps rest
            | None \<Rightarrow>
                if 1 \<le> one \<and> one \<le> length caps then
                  capture_text caps one @ get_substitution matched str pos caps rest
                else c # d # get_substitution matched str pos caps rest)
      else c # get_substitution matched str pos caps (d # rest))"

definition capture_strings :: "string \<Rightarrow> captures \<Rightarrow> string option list" where
  "capture_strings s caps = map (map_option (\<lambda>(from, until). substring s from until)) caps"

definition substitute :: "string \<Rightarrow> string \<Rightarrow> rmatch \<Rightarrow> string" where
  "substitute s template m =
     (case m of (i, j, caps) \<Rightarrow>
        get_substitution (substring s i j) s i (capture_strings s caps) template)"

subsection \<open>The matcher moves forward\<close>

text \<open>
  A match never ends before it starts nor beyond the end of the string, and the number of
  captures is fixed. The replacement loop below terminates for this reason.
\<close>

lemma rep_loop_cases:
  "y \<in> set (rep_loop greedy step len st) \<Longrightarrow>
     y = st \<or> (\<exists>st'\<in>set (step st). fst st < fst st' \<and> fst st' \<le> len
        \<and> y \<in> set (rep_loop greedy step len st'))"
  by (subst (asm) rep_loop.simps) (auto simp: Let_def split: if_splits)

lemma rep_loop_invariant:
  assumes step: "\<And>x y. Q x \<Longrightarrow> y \<in> set (step x) \<Longrightarrow> Q y"
  shows "Q st \<Longrightarrow> y \<in> set (rep_loop greedy step len st) \<Longrightarrow> Q y"
proof (induction "len - fst st" arbitrary: st rule: less_induct)
  case less
  from rep_loop_cases [OF less.prems(2)] show ?case
  proof
    assume "y = st" with less.prems(1) show ?thesis by simp
  next
    assume "\<exists>st'\<in>set (step st). fst st < fst st' \<and> fst st' \<le> len
        \<and> y \<in> set (rep_loop greedy step len st')"
    then obtain st' where st': "st' \<in> set (step st)" "fst st < fst st'" "fst st' \<le> len"
        "y \<in> set (rep_loop greedy step len st')" by blast
    have "len - fst st' < len - fst st" using st'(2,3) by arith
    moreover have "Q st'" by (rule step [OF less.prems(1) st'(1)])
    ultimately show ?thesis using less.hyps st'(4) by blast
  qed
qed

lemma clear_captures_simps [simp]:
  "fst (clear_captures b n st) = fst st"
  "length (snd (clear_captures b n st)) = length (snd st)"
  by (simp_all add: clear_captures_def)

lemma matches_bounds:
  "(j, caps') \<in> set (matches ml s r b (i, caps)) \<Longrightarrow>
     i \<le> j \<and> j \<le> max i (length s) \<and> length caps' = length caps"
proof (induction r arbitrary: b i caps j caps')
  case (Seq r1 r2)
  from Seq.prems obtain k c where k: "(k, c) \<in> set (matches ml s r1 b (i, caps))"
      "(j, caps') \<in> set (matches ml s r2 (b + groups r1) (k, c))"
    by auto
  from Seq.IH(1) [OF k(1)] Seq.IH(2) [OF k(2)] show ?case by auto
next
  case (Alt r1 r2)
  then show ?case by auto
next
  case (Star greedy r)
  let ?Q = "\<lambda>x. i \<le> fst x \<and> fst x \<le> max i (length s) \<and> length (snd x) = length caps"
  have "?Q (j, caps')"
  proof (rule rep_loop_invariant [where Q = ?Q and st = "(i, caps)"])
    fix x y assume Q: "?Q x" and y: "y \<in> set (matches ml s r b (clear_captures b (groups r) x))"
    obtain k c where x: "clear_captures b (groups r) x = (k, c)" by (cases "clear_captures b (groups r) x")
    have kc: "k = fst x" "length c = length (snd x)"
      using clear_captures_simps [of b "groups r" x] unfolding x by simp_all
    from Star.IH [of "fst y" "snd y" b k c] y x
    have "k \<le> fst y \<and> fst y \<le> max k (length s) \<and> length (snd y) = length c" by simp
    with Q kc show "?Q y" by auto
  next
    show "?Q (i, caps)" by simp
  next
    show "(j, caps') \<in> set (rep_loop greedy (\<lambda>x. matches ml s r b (clear_captures b (groups r) x)) (length s) (i, caps))"
      using Star.prems by simp
  qed
  then show ?case by simp
next
  case (Plus greedy r)
  from Plus.prems obtain st1 where st1: "st1 \<in> set (matches ml s r b (clear_captures b (groups r) (i, caps)))"
      "(j, caps') \<in> set (rep_loop greedy (\<lambda>x. matches ml s r b (clear_captures b (groups r) x)) (length s) st1)"
    by auto
  obtain k c where x: "clear_captures b (groups r) (i, caps) = (k, c)"
    by (cases "clear_captures b (groups r) (i, caps)")
  have kc: "k = i" "length c = length caps"
    using clear_captures_simps [of b "groups r" "(i, caps)"] unfolding x by simp_all
  from Plus.IH [of "fst st1" "snd st1" b k c] st1(1) x
  have first: "i \<le> fst st1 \<and> fst st1 \<le> max i (length s) \<and> length (snd st1) = length caps"
    using kc by simp
  let ?Q = "\<lambda>x. i \<le> fst x \<and> fst x \<le> max i (length s) \<and> length (snd x) = length caps"
  have "?Q (j, caps')"
  proof (rule rep_loop_invariant [where Q = ?Q and st = st1])
    fix x y assume Q: "?Q x" and y: "y \<in> set (matches ml s r b (clear_captures b (groups r) x))"
    obtain k c where x: "clear_captures b (groups r) x = (k, c)" by (cases "clear_captures b (groups r) x")
    have kc: "k = fst x" "length c = length (snd x)"
      using clear_captures_simps [of b "groups r" x] unfolding x by simp_all
    from Plus.IH [of "fst y" "snd y" b k c] y x
    have "k \<le> fst y \<and> fst y \<le> max k (length s) \<and> length (snd y) = length c" by simp
    with Q kc show "?Q y" by auto
  next
    show "?Q st1" by (rule first)
  next
    show "(j, caps') \<in> set (rep_loop greedy (\<lambda>x. matches ml s r b (clear_captures b (groups r) x)) (length s) st1)"
      by (rule st1(2))
  qed
  then show ?case by simp
next
  case (Group r)
  from Group.prems obtain c where c: "(j, c) \<in> set (matches ml s r (Suc b) (i, caps))"
      "caps' = c[b := Some (i, j)]"
    by auto
  from Group.IH [OF c(1)] c(2) show ?case by simp
next
  case (Backref n)
  then show ?case
    by (auto simp: Let_def min_def split: if_splits option.splits dest: arg_cong [where f = length])
qed (auto split: if_splits)

lemma match_at_bounds:
  "match_at p s k = Some (i, j, caps) \<Longrightarrow>
     i = k \<and> i \<le> j \<and> j \<le> max i (length s) \<and> length caps = groups (source p)"
proof -
  assume a: "match_at p s k = Some (i, j, caps)"
  let ?ms = "matches (Multiline \<in> set (flags p)) s (source p) 0 (k, replicate (groups (source p)) None)"
  from a obtain rest where ms: "?ms = (j, caps) # rest" and ik: "i = k"
    by (auto simp: match_at_def split: list.splits)
  then have "(j, caps) \<in> set ?ms" by simp
  from matches_bounds [OF this] ik show ?thesis by simp
qed

lemma exec_loop_bounds:
  "exec_loop p s n k = Some (i, j, caps) \<Longrightarrow>
     k \<le> i \<and> i < k + n \<and> i \<le> j \<and> j \<le> max i (length s) \<and> length caps = groups (source p)"
proof (induction n arbitrary: k)
  case 0
  then show ?case by simp
next
  case (Suc n)
  show ?case
  proof (cases "match_at p s k")
    case None
    with Suc.prems have "exec_loop p s n (Suc k) = Some (i, j, caps)" by simp
    from Suc.IH [OF this] show ?thesis by simp
  next
    case (Some m)
    with Suc.prems have "match_at p s k = Some (i, j, caps)" by simp
    from match_at_bounds [OF this] show ?thesis by auto
  qed
qed

lemma regexp_exec_bounds:
  assumes "regexp_exec p s lastIndex = Some (i, j, caps)"
  shows "lastIndex \<le> i \<and> i \<le> j \<and> j \<le> length s \<and> length caps = groups (source p)"
proof -
  from exec_loop_bounds [OF assms [unfolded regexp_exec_def]]
  have b: "lastIndex \<le> i" "i < lastIndex + (Suc (length s) - lastIndex)" "i \<le> j"
      "j \<le> max i (length s)" "length caps = groups (source p)"
    by simp_all
  from b(1,2) have "i \<le> length s" by arith
  with b show ?thesis by simp
qed

subsection \<open>\<open>String.prototype.replace\<close> with a pattern\<close>

text \<open>
  With the flag \<open>g\<close> the search starts at \<open>lastIndex = 0\<close> and is repeated from the end of
  each match (one further after an empty match) until it fails; every match is replaced by
  its substitution and the text between the matches is kept. Without \<open>g\<close> only the first
  match is replaced. Without any match the string is returned as it is.
\<close>

function replace_loop :: "regexp \<Rightarrow> string \<Rightarrow> string \<Rightarrow> nat \<Rightarrow> nat \<Rightarrow> string" where
  "replace_loop p template s lastIndex nextSourcePosition =
     (case regexp_exec p s lastIndex of
        None \<Rightarrow> drop nextSourcePosition s
      | Some (i, j, caps) \<Rightarrow>
          substring s nextSourcePosition i @ substitute s template (i, j, caps)
          @ replace_loop p template s (if j = i then Suc j else j) j)"
  by pat_completeness auto
termination
  by (relation "measure (\<lambda>(p, template, s, lastIndex, nextSourcePosition). Suc (length s) - lastIndex)")
     (auto dest: regexp_exec_bounds)

declare replace_loop.simps [simp del]

definition string_replace :: "regexp \<Rightarrow> string \<Rightarrow> string \<Rightarrow> string" where
  "string_replace p template s =
     (if Global \<in> set (flags p) then replace_loop p template s 0 0
      else (case regexp_exec p s 0 of
              None \<Rightarrow> s
            | Some (i, j, caps) \<Rightarrow> take i s @ substitute s template (i, j, caps) @ drop j s))"

section \<open>presets: cleaning a version\<close>

text \<open>
  \<open>options.clean\<close> is a boolean or a pattern; absent, it defaults to \<open>true\<close>.
  \<open>semver.clean\<close> belongs to the semver package and is a parameter: it returns a string, or
  \<open>null\<close> for what is no version.
\<close>

datatype clean_option = Flag bool | Pattern regexp

definition getCleanFunction :: "(string \<Rightarrow> jsval) \<Rightarrow> clean_option option \<Rightarrow> string \<Rightarrow> jsval" where
  "getCleanFunction semver_clean clean_opt =
     (case (case clean_opt of None \<Rightarrow> Flag True | Some c \<Rightarrow> c) of
        Pattern p \<Rightarrow> (\<lambda>version. Str (string_replace p [] version))
      | Flag b \<Rightarrow> if b then semver_clean else (\<lambda>version. Str version))"

section \<open>presets: replacing in a file\<close>


text \<open>
  Pieces of the presets' patterns: a run of literal characters, a sequence of parts,
  \<open>\s\<close>, \<open>[^[]\<close>, \<open>("|')\<close> without its parentheses, and the end \<open>("|').*?\2\<close> that the
  cargo and the quoted preset share.
\<close>

fun literal :: "string \<Rightarrow> regex" where
  "literal [] = Eps"
| "literal [c] = Chr c"
| "literal (c # cs) = Seq (Chr c) (literal cs)"

fun seq :: "regex list \<Rightarrow> regex" where
  "seq [] = Eps"
| "seq [r] = r"
| "seq (r # rs) = Seq r (seq rs)"

definition space :: regex where
  "space = Cls False [CHR '' '', CHR 0x09, CHR 0x0A, CHR 0x0B, CHR 0x0C, CHR 0x0D]"




text \<open>The replacement \<open>'$1$2' + cleanedVersion + '$2'\<close>.\<close>

definition version_replacement :: "string \<Rightarrow> string" where
  "version_replacement cleanedVersion = ''$1$2'' @ cleanedVersion @ ''$2''"

text \<open>
  \<open>path.join\<close> puts the separator between its segments; of its normalisation the model
  keeps the dropping of empty and \<open>.\<close> segments. \<open>path.isAbsolute\<close> is a leading separator.
\<close>

definition path_join :: "string list \<Rightarrow> string" where
  "path_join parts = join_js ''/'' (filter (\<lambda>p. p \<noteq> [] \<and> p \<noteq> ''.'') parts)"


section \<open>presets: updateVersion\<close>

text \<open>
  What an operation does with its callback: it never calls it, it calls it with an error or
  without one, or an exception escapes before it is called.
\<close>

datatype callback = NotCalled | Called "error option" | Thrown error

subsection \<open>npm\<close>



subsection \<open>cargo\<close>





subsection \<open>initPy\<close>

text \<open>
  \<open>replaceInFile\<close> (the replace-in-file package) is a parameter: given the file system, the
  file, the pattern and the replacement it returns the error it passes to its callback,
  if any, and the file system it leaves. The preset's own callback passes an error on and
  does nothing otherwise. The pattern is
  \<open>/(__version__\s*=\s*)('|")(?:0|[1-9]\d*)\.(?:0|[1-9]\d*)\.(?:0|[1-9]\d*)\2/g\<close>.
\<close>

type_synonym replace_in_file_fn = "filesystem \<Rightarrow> string \<Rightarrow> regexp \<Rightarrow> string \<Rightarrow> error option \<times> filesystem"

definition number_pattern :: regex where
  "number_pattern = Alt (Chr CHR ''0'') (Seq (Cls False ''123456789'') (Star True (Cls False ''0123456789'')))"

definition init_pattern :: regexp where
  "init_pattern =
     \<lparr>source = seq [Group (seq [literal ''__version__'', Star True space, Chr CHR ''='', Star True space]),
                     Group (Alt (Chr (CHR 0x27)) (Chr (CHR 0x22))),
                     number_pattern, Chr CHR ''.'', number_pattern, Chr CHR ''.'', number_pattern,
                     Backref 2],
      flags = [Global]\<rparr>"

definition initPy ::
  "(string \<Rightarrow> jsval) \<Rightarrow> replace_in_file_fn \<Rightarrow> string option \<Rightarrow> clean_option option
     \<Rightarrow> filesystem \<Rightarrow> string \<Rightarrow> string \<Rightarrow> callback \<times> filesystem" where
  "initPy semver_clean replaceInFile targetFileOption clean_opt fs cwd version =
     (let targetFile = (case targetFileOption of None \<Rightarrow> ''__init__.py'' | Some f \<Rightarrow> f);
          cleanFn = getCleanFunction semver_clean clean_opt;
          initFile = path_join [cwd, targetFile];
          cleanedVersion = cleanFn version
      in if \<not> truthy cleanedVersion then (Called (Some (InvalidVersion version)), fs)
         else (case replaceInFile fs initFile init_pattern
                      (version_replacement (to_string cleanedVersion)) of
                 (Some e, fs') \<Rightarrow> (Called (Some e), fs')
               | (None, fs') \<Rightarrow> (NotCalled, fs')))"

text \<open>
  An instance of the parameter, for the closed examples: a missing file is an error,
  otherwise the file is written with the result of \<open>contents.replace(from, to)\<close>.
\<close>

definition replace_in_file :: replace_in_file_fn where
  "replace_in_file fs file pattern replacement =
     (case fs file of
        None \<Rightarrow> (Some (ENOENT file), fs)
      | Some contents \<Rightarrow> (None, fs(file \<mapsto> string_replace pattern replacement contents)))"

subsection \<open>quoted\<close>


definition uniq :: "'a list \<Rightarrow> 'a list" where
  "uniq xs = rev (remdups (rev xs))"


subsection \<open>The inputs of the examples\<close>



definition accept_clean :: "string \<Rightarrow> jsval" where
  "accept_clean v = (if v = [] then Null else Str v)"




definition init_files :: filesystem where
  "init_files = [''/w/__init__.py'' \<mapsto> ''__version__ = '1.0.0'\<newline>'']"






section \<open>Increment levels: proofs\<close>

lemma getHigher_classified:
  assumes "a \<in> classifications" "b \<in> classifications"
  shows "getHigherIncrementLevel a b =
      Inr (if is_none a \<and> is_none b then Null
           else if position b \<le> position a then a else b)"
  using assms
  by (auto simp: classifications_def getHigherIncrementLevel_def check_level_def isValidIncrementLevel_def
      includes_js_def VALID_INCREMENT_LEVELS_def is_none_def position_def nth_js_def)

lemma position_none: "is_none v \<Longrightarrow> position v = -1"
  by (auto simp: is_none_def position_def VALID_INCREMENT_LEVELS_def)

lemma position_level: "v \<in> classifications \<Longrightarrow> \<not> is_none v \<Longrightarrow> 0 \<le> position v"
  by (auto simp: classifications_def is_none_def position_def VALID_INCREMENT_LEVELS_def)

lemma reduce_levels_max:
  assumes "\<forall>c\<in>set cs. g c \<in> classifications" "cur \<in> classifications" "cur \<noteq> Undefined"
  shows "\<exists>r. reduce_levels g cs cur = Inr r \<and> r \<noteq> Undefined
          \<and> (r = Null \<longleftrightarrow> cur = Null \<and> (\<forall>c\<in>set cs. is_none (g c)))
          \<and> (r = cur \<or> r \<in> g ` set cs)
          \<and> position cur \<le> position r
          \<and> (\<forall>c\<in>set cs. position (g c) \<le> position r)"
  using assms
proof (induction cs arbitrary: cur)
  case Nil
  then show ?case by simp
next
  case (Cons c cs)
  define l where "l = (if is_none (g c) \<and> is_none cur then Null
           else if position cur \<le> position (g c) then g c else cur)"
  have gc: "g c \<in> classifications" using Cons.prems by simp
  have step: "getHigherIncrementLevel (g c) cur = Inr l"
    unfolding l_def using getHigher_classified [OF gc Cons.prems(2)] by simp
  have l1: "l \<in> classifications" "l \<noteq> Undefined"
    using gc Cons.prems(2,3) position_level [of cur] position_none [of "g c"]
    by (auto simp: l_def is_none_def)
  have l2: "l = Null \<longleftrightarrow> cur = Null \<and> is_none (g c)"
    using gc Cons.prems(2,3) position_level [of "g c"] position_level [of cur] position_none [of cur] position_none [of "g c"]
    by (auto simp: l_def is_none_def)
  have l3: "l = cur \<or> l = g c" "position cur \<le> position l" "position (g c) \<le> position l"
    using gc Cons.prems(2,3) position_level [of "g c"] position_level [of cur] position_none [of cur] position_none [of "g c"]
    by (auto simp: l_def is_none_def)
  from Cons.IH [of l] l1 Cons.prems(1)
  obtain r where r: "reduce_levels g cs l = Inr r" "r \<noteq> Undefined"
      "r = Null \<longleftrightarrow> l = Null \<and> (\<forall>c\<in>set cs. is_none (g c))"
      "r = l \<or> r \<in> g ` set cs" "position l \<le> position r"
      "\<forall>c\<in>set cs. position (g c) \<le> position r"
    by auto
  have "reduce_levels g (c # cs) cur = Inr r" using step r(1) by simp
  moreover have "r = Null \<longleftrightarrow> cur = Null \<and> (\<forall>c\<in>set (c # cs). is_none (g c))"
    using r(3) l2 by auto
  moreover have "r = cur \<or> r \<in> g ` set (c # cs)" using r(4) l3(1) by auto
  moreover have "position cur \<le> position r" using r(5) l3(2) by linarith
  moreover have "\<forall>c\<in>set (c # cs). position (g c) \<le> position r" using r(5,6) l3(3) by auto
  ultimately show ?case using r(2) by blast
qed

text \<open>
  Claim C1. For a non-empty sequence of commits whose classifications are patch, minor,
  major or none (\<open>null\<close> or \<open>undefined\<close>), \<open>calculateNextIncrementLevel\<close> returns a
  level, that level is none exactly when every classification is none, otherwise it is one
  of the classifications present, and no classification present has a greater position in
  \<open>VALID_INCREMENT_LEVELS\<close> (none has position \<open>-1\<close>). The pairwise rule
  \<open>getHigherIncrementLevel\<close> returns \<open>null\<close> when both arguments are none and otherwise
  the argument with the greater position.
\<close>

theorem calculateNextIncrementLevel_max:
  assumes "commits \<noteq> []"
    and "\<forall>c\<in>set commits. getLevel c \<in> classifications"
    and "a \<in> classifications" and "b \<in> classifications"
  shows "(\<exists>r. calculateNextIncrementLevel commits getLevel = Inr r
            \<and> (is_none r \<longleftrightarrow> (\<forall>c\<in>set commits. is_none (getLevel c)))
            \<and> (\<not> is_none r \<longrightarrow> r \<in> getLevel ` set commits)
            \<and> (\<forall>c\<in>set commits. position (getLevel c) \<le> position r))
       \<and> getHigherIncrementLevel a b =
            Inr (if is_none a \<and> is_none b then Null
                 else if position b \<le> position a then a else b)"
proof -
  have "Null \<in> classifications" by (simp add: classifications_def)
  from reduce_levels_max [OF assms(2) this]
  obtain r where r: "reduce_levels getLevel commits Null = Inr r" "r \<noteq> Undefined"
      "r = Null \<longleftrightarrow> (\<forall>c\<in>set commits. is_none (getLevel c))"
      "r = Null \<or> r \<in> getLevel ` set commits"
      "\<forall>c\<in>set commits. position (getLevel c) \<le> position r"
    by auto
  have "calculateNextIncrementLevel commits getLevel = Inr r"
    using assms(1) r(1) by (simp add: calculateNextIncrementLevel_def)
  moreover have "is_none r \<longleftrightarrow> (\<forall>c\<in>set commits. is_none (getLevel c))"
    using r(2,3) by (auto simp: is_none_def)
  moreover have "\<not> is_none r \<longrightarrow> r \<in> getLevel ` set commits"
    using r(4) by (auto simp: is_none_def)
  ultimately show ?thesis using r(5) getHigher_classified [OF assms(3,4)] by blast
qed

text \<open>The theorem at the inputs of the specification's examples.\<close>

theorem calculateNextIncrementLevel_max_witness:
  "calculateNextIncrementLevel [Str ''patch'', Str ''major'', Str ''minor''] id = Inr (Str ''major'')
   \<and> calculateNextIncrementLevel [Null, Undefined] id = Inr Null
   \<and> getHigherIncrementLevel Null (Str ''patch'') = Inr (Str ''patch'')"
proof -
  have c: "Str ''patch'' \<in> classifications" "Null \<in> classifications"
    by (simp_all add: classifications_def)
  have ne: "[Str ''patch'', Str ''major'', Str ''minor''] \<noteq> []" by simp
  have al: "\<forall>c\<in>set [Str ''patch'', Str ''major'', Str ''minor'']. id c \<in> classifications"
    by (simp add: classifications_def)
  from calculateNextIncrementLevel_max [OF ne al c(2) c(1)]
  have h: "getHigherIncrementLevel Null (Str ''patch'') = Inr (Str ''patch'')"
    by (simp add: is_none_def position_def VALID_INCREMENT_LEVELS_def)
  have "calculateNextIncrementLevel [Str ''patch'', Str ''major'', Str ''minor''] id = Inr (Str ''major'')"
    by code_simp
  moreover have "calculateNextIncrementLevel [Null, Undefined] id = Inr Null"
    by code_simp
  ultimately show ?thesis using h by simp
qed

section \<open>Changelog merge: proofs\<close>

lemma dropRightWhile_Nil [simp]: "dropRightWhile p [] = []"
  by (simp add: dropRightWhile_def)

lemma dropRightWhile_append:
  "dropRightWhile p (xs @ ys) =
     (if \<forall>y\<in>set ys. p y then dropRightWhile p xs else xs @ dropRightWhile p ys)"
  by (auto simp: dropRightWhile_def dropWhile_append)

lemma dropRightWhile_eq_Nil: "dropRightWhile p xs = [] \<longleftrightarrow> (\<forall>x\<in>set xs. p x)"
  by (simp add: dropRightWhile_def)

lemma dropRightWhile_last:
  "dropRightWhile p xs \<noteq> [] \<Longrightarrow> \<not> p (last (dropRightWhile p xs))"
  unfolding dropRightWhile_def
  by (metis hd_dropWhile last_rev rev_is_Nil_conv)

lemma dropRightWhile_idem [simp]: "dropRightWhile p (dropRightWhile p xs) = dropRightWhile p xs"
  unfolding dropRightWhile_def
  by (metis dropWhile_idem rev_rev_ident)

lemma dropRightWhile_hd:
  "xs \<noteq> [] \<Longrightarrow> \<not> p (hd xs) \<Longrightarrow> dropRightWhile p xs \<noteq> [] \<and> hd (dropRightWhile p xs) = hd xs"
proof (induction xs rule: rev_induct)
  case Nil
  then show ?case by simp
next
  case (snoc x xs)
  show ?case
  proof (cases "xs = []")
    case True
    with snoc.prems show ?thesis by (simp add: dropRightWhile_def)
  next
    case False
    with snoc show ?thesis by (auto simp: dropRightWhile_append)
  qed
qed

lemma trim_lines_edges:
  "trim_lines ls \<noteq> [] \<Longrightarrow> \<not> starts_blank (trim_lines ls) \<and> \<not> ends_blank (trim_lines ls)"
proof -
  assume ne: "trim_lines ls \<noteq> []"
  let ?d = "dropWhile isEmpty ls"
  have dne: "?d \<noteq> []" using ne by (metis dropRightWhile_Nil trim_lines_def)
  then have hd: "\<not> isEmpty (hd ?d)" by (simp add: hd_dropWhile)
  from dropRightWhile_hd [of ?d isEmpty, OF dne hd] have "hd (trim_lines ls) = hd ?d"
    by (simp add: trim_lines_def)
  with hd ne have a: "\<not> starts_blank (trim_lines ls)"
    by (cases "trim_lines ls") (auto simp: starts_blank_def isEmpty_def)
  from dropRightWhile_last [of isEmpty ?d] ne have "\<not> isEmpty (last (trim_lines ls))"
    by (simp add: trim_lines_def)
  with ne have b: "\<not> ends_blank (trim_lines ls)"
    by (cases "rev (trim_lines ls)") (auto simp: ends_blank_def starts_blank_def isEmpty_def last_rev [symmetric])
  from a b show ?thesis by simp
qed


lemma combine_Nil: "combine [] ls = dropWhile isEmpty ls"
  by (simp add: combine_def)


lemma starts_blank_dropWhile: "\<not> starts_blank (dropWhile isEmpty ls)"
proof (cases "dropWhile isEmpty ls")
  case Nil
  show ?thesis unfolding Nil by (simp add: starts_blank_def)
next
  case (Cons l ls')
  then have "\<not> isEmpty l" using hd_dropWhile [of isEmpty ls] by auto
  with Cons show ?thesis by (simp add: starts_blank_def isEmpty_def)
qed

lemma starts_blank_append: "xs \<noteq> [] \<Longrightarrow> starts_blank (xs @ ys) = starts_blank xs"
  by (cases xs) (auto simp: starts_blank_def)

lemma trim_lines_Nil_iff: "trim_lines ls = [] \<longleftrightarrow> dropWhile isEmpty ls = []"
proof
  assume "trim_lines ls = []"
  then have all: "\<forall>l\<in>set (dropWhile isEmpty ls). isEmpty l"
    by (simp add: trim_lines_def dropRightWhile_eq_Nil)
  show "dropWhile isEmpty ls = []"
  proof (rule ccontr)
    assume ne: "dropWhile isEmpty ls \<noteq> []"
    then have "\<not> isEmpty (hd (dropWhile isEmpty ls))" by (simp add: hd_dropWhile)
    moreover have "hd (dropWhile isEmpty ls) \<in> set (dropWhile isEmpty ls)" using ne by simp
    ultimately show False using all by blast
  qed
next
  assume "dropWhile isEmpty ls = []"
  then show "trim_lines ls = []" by (simp only: trim_lines_def dropRightWhile_Nil)
qed

lemma merge_lines_shape:
  fixes hd_seg mid tl_seg :: "string list"
  defines "H \<equiv> trim_lines hd_seg" and "M \<equiv> trim_lines mid" and "T \<equiv> dropWhile isEmpty tl_seg"
  shows "foldl combine [] [hd_seg, mid, tl_seg] =
     (if H = [] then (if M = [] then T else M @ [''''] @ T)
      else if M = [] then H @ [''''] @ T else H @ [''''] @ M @ [''''] @ T)"
proof -
  let ?M1 = "dropWhile isEmpty mid"
  have a1: "combine [] hd_seg = dropWhile isEmpty hd_seg" by (rule combine_Nil)
  have a2: "combine (dropWhile isEmpty hd_seg) mid = (if H = [] then ?M1 else H @ [''''] @ ?M1)"
    by (simp add: combine_def H_def trim_lines_def)
  have M1: "M = [] \<longleftrightarrow> ?M1 = []" unfolding M_def by (rule trim_lines_Nil_iff)
  have M1': "?M1 \<noteq> [] \<Longrightarrow> \<not> (\<forall>l\<in>set ?M1. isEmpty l)"
    using M1 by (simp add: M_def trim_lines_def dropRightWhile_eq_Nil)
  have Hid: "dropRightWhile isEmpty H = H" by (simp add: H_def trim_lines_def)
  show ?thesis
  proof (cases "H = []")
    case True
    then show ?thesis
      by (simp add: a1 a2) (simp add: combine_def M_def T_def trim_lines_def)
  next
    case False
    have d: "dropRightWhile isEmpty (H @ [''''] @ ?M1) = (if M = [] then H else H @ [''''] @ M)"
    proof (cases "?M1 = []")
      case True
      have "M = []" using M1 True by blast
      moreover have "dropRightWhile isEmpty (H @ [''''] @ []) = H"
        using Hid by (simp add: dropRightWhile_append isEmpty_def)
      ultimately show ?thesis by (simp add: True)
    next
      case ne: False
      from M1' [OF ne] have "\<not> (\<forall>l\<in>set ([''''] @ ?M1). isEmpty l)" by auto
      then have "dropRightWhile isEmpty (H @ ([''''] @ ?M1)) = H @ dropRightWhile isEmpty ([''''] @ ?M1)"
        by (simp only: dropRightWhile_append if_False)
      also have "dropRightWhile isEmpty ([''''] @ ?M1) = [''''] @ dropRightWhile isEmpty ?M1"
        using M1' [OF ne] by (simp only: dropRightWhile_append if_False)
      finally show ?thesis using ne M1 by (simp add: M_def trim_lines_def)
    qed
    have "foldl combine [] [hd_seg, mid, tl_seg] = combine (H @ [''''] @ ?M1) tl_seg"
      using False by (simp add: a1 a2)
    also have "\<dots> = (if M = [] then H @ [''''] @ T else H @ [''''] @ M @ [''''] @ T)"
      unfolding combine_def Let_def d using False by (simp add: T_def)
    finally show ?thesis using False by simp
  qed
qed




text \<open>
  Claim C4, as amended. The merged lines are the head and the entry, each stripped of blank
  lines at both ends, and the tail stripped of its leading blank lines; each of head and
  entry that is left non-empty is followed by exactly one separator line. So a separator
  the merge inserts stands directly after a non-blank line and directly before a non-blank
  line or the end of the document, and the output never starts with a blank line. (Blank
  lines at the end of the tail are kept as they are.)
\<close>

theorem merge_lines_blank_lines:
  "(let existing = split_js CHR ''\<newline>'' contents;
        H = trim_lines (slice_js existing 0 (Some fromLine));
        M = trim_lines (split_js CHR ''\<newline>'' entry);
        T = dropWhile isEmpty (slice_js existing fromLine None);
        out = merge_lines contents entry fromLine
    in out = (if H = [] then (if M = [] then T else M @ [''''] @ T)
              else if M = [] then H @ [''''] @ T else H @ [''''] @ M @ [''''] @ T)
       \<and> \<not> starts_blank out
       \<and> \<not> starts_blank H \<and> \<not> ends_blank H
       \<and> \<not> starts_blank M \<and> \<not> ends_blank M
       \<and> \<not> starts_blank T)"
proof -
  define H where "H = trim_lines (slice_js (split_js CHR ''\<newline>'' contents) 0 (Some fromLine))"
  define M where "M = trim_lines (split_js CHR ''\<newline>'' entry)"
  define T where "T = dropWhile isEmpty (slice_js (split_js CHR ''\<newline>'' contents) fromLine None)"
  define out where "out = merge_lines contents entry fromLine"
  have shape: "out = (if H = [] then (if M = [] then T else M @ [''''] @ T)
              else if M = [] then H @ [''''] @ T else H @ [''''] @ M @ [''''] @ T)"
    unfolding out_def merge_lines_def Let_def H_def M_def T_def by (rule merge_lines_shape)
  have nil: "\<not> starts_blank []" "\<not> ends_blank []"
    by (simp_all add: starts_blank_def ends_blank_def)
  have H: "\<not> starts_blank H \<and> \<not> ends_blank H"
    using trim_lines_edges nil unfolding H_def by metis
  have M: "\<not> starts_blank M \<and> \<not> ends_blank M"
    using trim_lines_edges nil unfolding M_def by metis
  have T: "\<not> starts_blank T" unfolding T_def by (rule starts_blank_dropWhile)
  have "\<not> starts_blank out"
    using H M T by (simp add: shape starts_blank_append)
  with shape H M T show ?thesis
    unfolding Let_def H_def [symmetric] M_def [symmetric] T_def [symmetric] out_def [symmetric]
    by blast
qed

text \<open>
  Claim C4 as stated fails at the end of the document: the blank lines that end the tail
  stay in the output.
\<close>

theorem merge_lines_trailing_counterexample:
  "merge_lines ''A\<newline>\<newline>\<newline>'' ''B'' 0 = [''B'', '''', ''A'', '''', '''', '''']
   \<and> \<not> blank_free_edges (merge_lines ''A\<newline>\<newline>\<newline>'' ''B'' 0)"
  by code_simp

section \<open>Comparing versions: proofs\<close>



















section \<open>Presets: proofs\<close>

text \<open>
  Claim C2. The cleaning function for a pattern is \<open>version.replace(pattern, '')\<close>: without
  the flag \<open>g\<close> it removes the first match only. On \<open>1.2.3-beta-beta\<close> the pattern
  \<open>/-beta/\<close> leaves \<open>1.2.3-beta\<close>; the example of the specification, with a single match,
  yields \<open>1.2.3\<close>; with the flag \<open>g\<close> every match is removed.
\<close>

theorem getCleanFunction_first_match_only:
  "getCleanFunction semver_clean (Some (Pattern \<lparr>source = literal ''-beta'', flags = []\<rparr>)) ''1.2.3-beta-beta''
     = Str ''1.2.3-beta''
   \<and> getCleanFunction semver_clean (Some (Pattern \<lparr>source = literal ''-beta'', flags = []\<rparr>)) ''1.2.3-beta''
     = Str ''1.2.3''
   \<and> getCleanFunction semver_clean (Some (Pattern \<lparr>source = literal ''-beta'', flags = [Global]\<rparr>)) ''1.2.3-beta-beta''
     = Str ''1.2.3''"
proof -
  have a: "string_replace \<lparr>source = literal ''-beta'', flags = []\<rparr> [] ''1.2.3-beta-beta'' = ''1.2.3-beta''"
    by code_simp
  have b: "string_replace \<lparr>source = literal ''-beta'', flags = []\<rparr> [] ''1.2.3-beta'' = ''1.2.3''"
    by code_simp
  have c: "string_replace \<lparr>source = literal ''-beta'', flags = [Global]\<rparr> [] ''1.2.3-beta-beta'' = ''1.2.3''"
    by code_simp
  show ?thesis
    unfolding getCleanFunction_def by (simp only: option.case clean_option.case a b c simp_thms)
qed




text \<open>
  Claim C9. The initPy preset never calls its callback without an error: when the version
  is clean and \<open>replaceInFile\<close> reports no error the callback is not called at all, and the
  files are as \<open>replaceInFile\<close> left them; an error of \<open>replaceInFile\<close> and an invalid
  version are passed to the callback.
\<close>

theorem initPy_never_signals_success:
  "(let initFile = path_join [cwd, case targetFile of None \<Rightarrow> ''__init__.py'' | Some f \<Rightarrow> f];
        cleanedVersion = getCleanFunction semver_clean clean_opt version;
        replaced = replaceInFile fs initFile init_pattern (version_replacement (to_string cleanedVersion));
        result = initPy semver_clean replaceInFile targetFile clean_opt fs cwd version
    in fst result \<noteq> Called None
       \<and> (truthy cleanedVersion \<and> fst replaced = None \<longrightarrow> result = (NotCalled, snd replaced))
       \<and> (truthy cleanedVersion \<and> fst replaced \<noteq> None \<longrightarrow> result = (Called (fst replaced), snd replaced))
       \<and> (\<not> truthy cleanedVersion \<longrightarrow> result = (Called (Some (InvalidVersion version)), fs)))"
  by (auto simp: initPy_def Let_def split: prod.splits option.splits)

text \<open>The theorem on a file whose version is rewritten: the callback is not called.\<close>

theorem initPy_never_signals_success_witness:
  "fst (initPy accept_clean replace_in_file None None init_files ''/w'' ''1.1.0'') = NotCalled
   \<and> snd (initPy accept_clean replace_in_file None None init_files ''/w'' ''1.1.0'') ''/w/__init__.py''
       = Some ''__version__ = '1.1.0'\<newline>''"
proof -
  let ?file = "path_join [''/w'', case None of None \<Rightarrow> ''__init__.py'' | Some f \<Rightarrow> f]"
  let ?cleaned = "getCleanFunction accept_clean None ''1.1.0''"
  let ?replaced = "replace_in_file init_files ?file init_pattern (version_replacement (to_string ?cleaned))"
  have h1: "truthy ?cleaned" by code_simp
  have h2: "fst ?replaced = None" by code_simp
  have h3: "snd ?replaced ''/w/__init__.py'' = Some ''__version__ = '1.1.0'\<newline>''" by code_simp
  from initPy_never_signals_success [of "''/w''" None accept_clean None "''1.1.0''" replace_in_file init_files]
  have "initPy accept_clean replace_in_file None None init_files ''/w'' ''1.1.0'' = (NotCalled, snd ?replaced)"
    unfolding Let_def using h1 h2 by blast
  with h3 show ?thesis by (simp only: fst_conv snd_conv simp_thms)
qed




section \<open>The quoted preset: proofs\<close>

subsection \<open>How the pattern with its quoted literal matches\<close>

lemma clear_captures_zero [simp]: "clear_captures b 0 st = st"
proof -
  have "(\<lambda>(k, c). if b \<le> k \<and> k < b + 0 then None else c) = (snd :: nat \<times> (nat \<times> nat) option \<Rightarrow> _)"
    by (auto simp: fun_eq_iff)
  then show ?thesis by (simp add: clear_captures_def)
qed













subsection \<open>The replacement text\<close>





subsection \<open>Replacing the first match\<close>





lemma uniq_set [simp]: "set (uniq xs) = set xs"
  by (simp add: uniq_def)

lemma uniq_distinct [simp]: "distinct (uniq xs)"
  by (simp add: uniq_def)





end
